theory Spec2Isabelle
  imports Main
begin

section \<open>The two tables\<close>

text \<open>
  The service of \<^verbatim>\<open>src/index.ts\<close> keeps two SQLite tables. A table is modelled as
  the list of its rows in insertion order; its \<^verbatim>\<open>PRIMARY KEY\<close> constraint is
  enforced by the insert statements below, which throw on a key that is already stored.
  A table that has not been created yet is represented by the empty list, so that
  \<^verbatim>\<open>CREATE TABLE IF NOT EXISTS\<close> leaves the representation as it is.
  SQLite integers are modelled as unbounded \<open>int\<close>: a count grows by one per accepted
  proof and never comes near the 64-bit limit.
\<close>

record ScoreCount =
  score :: int
  count :: int

record ProofRow =
  proofId :: string
  proof_text :: string
  proof_score :: int
  created_at :: nat

record Database =
  scores :: "ScoreCount list"
  proofs :: "ProofRow list"

definition initialScores :: "ScoreCount list" where
  "initialScores =
    [ \<lparr>score = 131072, count = 0\<rparr>,
      \<lparr>score = 65536, count = 0\<rparr>,
      \<lparr>score = 32768, count = 0\<rparr>,
      \<lparr>score = 16384, count = 0\<rparr>,
      \<lparr>score = 8192, count = 0\<rparr>,
      \<lparr>score = 4096, count = 0\<rparr>,
      \<lparr>score = 2048, count = 0\<rparr>,
      \<lparr>score = 1024, count = 0\<rparr>,
      \<lparr>score = 512, count = 0\<rparr>,
      \<lparr>score = 256, count = 0\<rparr>,
      \<lparr>score = 128, count = 0\<rparr>,
      \<lparr>score = 64, count = 0\<rparr>,
      \<lparr>score = 32, count = 0\<rparr>,
      \<lparr>score = 16, count = 0\<rparr>,
      \<lparr>score = 8, count = 0\<rparr>,
      \<lparr>score = 4, count = 0\<rparr>,
      \<lparr>score = 2, count = 0\<rparr> ]"

definition fresh_db :: Database where
  "fresh_db = \<lparr>scores = [], proofs = []\<rparr>"

section \<open>Statements and the errors they throw\<close>

text \<open>
  Everything a handler can throw is a value of \<open>exn\<close>: \<^verbatim>\<open>JSON.parse\<close> on text
  that is not JSON, a rejected promise of the verifier, and an error of a database
  statement. A statement throws when it breaks a constraint of its table, and it may throw
  for a reason outside the tables (an I/O error, a locked or full database file). The
  second kind is given by the environment of one run: \<open>Some i\<close> says that the \<open>i\<close>-th
  statement the run reaches throws, \<open>None\<close> that none does. A statement that throws
  leaves the tables as they were.
\<close>

datatype exn = SyntaxError | VerifierError | SqliteError

type_synonym fault = "nat option"

definition stmt_fails :: "fault \<Rightarrow> nat \<Rightarrow> bool" where
  "stmt_fails f i = (f = Some i)"

text \<open>\<^verbatim>\<open>INSERT INTO scores (score, count) VALUES (@score, @count)\<close>\<close>

definition insert_score :: "ScoreCount \<Rightarrow> ScoreCount list \<Rightarrow> exn + ScoreCount list" where
  "insert_score item tbl =
     (if score item \<in> set (map score tbl) then Inl SqliteError else Inr (tbl @ [item]))"

text \<open>\<^verbatim>\<open>SELECT score, count FROM scores WHERE score = ?\<close>\<close>

definition select_score :: "int \<Rightarrow> ScoreCount list \<Rightarrow> ScoreCount option" where
  "select_score s tbl = find (\<lambda>r. score r = s) tbl"

text \<open>\<^verbatim>\<open>UPDATE scores SET count = count + 1 WHERE score = ?\<close>\<close>

definition increment_score :: "int \<Rightarrow> ScoreCount list \<Rightarrow> ScoreCount list" where
  "increment_score s tbl = map (\<lambda>r. if score r = s then r\<lparr>count := count r + 1\<rparr> else r) tbl"

text \<open>\<^verbatim>\<open>SELECT score, count FROM scores ORDER BY score DESC\<close>\<close>

definition select_scores_desc :: "ScoreCount list \<Rightarrow> ScoreCount list" where
  "select_scores_desc tbl = sort_key (\<lambda>r. - score r) tbl"

text \<open>\<^verbatim>\<open>SELECT proofId FROM proofs WHERE proofId = ?\<close>\<close>

definition select_proof :: "string \<Rightarrow> ProofRow list \<Rightarrow> ProofRow option" where
  "select_proof pid tbl = find (\<lambda>r. proofId r = pid) tbl"

text \<open>
  \<^verbatim>\<open>INSERT INTO proofs (proofId, proof, score) VALUES (?, ?, ?)\<close>; the column
  \<^verbatim>\<open>created_at\<close> takes its default, the time of the insert.
\<close>

definition insert_proof :: "ProofRow \<Rightarrow> ProofRow list \<Rightarrow> exn + ProofRow list" where
  "insert_proof row tbl =
     (if proofId row \<in> set (map proofId tbl) then Inl SqliteError else Inr (tbl @ [row]))"

text \<open>
  \<^verbatim>\<open>SELECT proofId, proof, score, created_at FROM proofs ORDER BY created_at DESC\<close>.
  Rows of one timestamp keep their insertion order, as the scan of the index on
  \<^verbatim>\<open>created_at\<close> yields them.
\<close>

definition select_proofs_desc :: "ProofRow list \<Rightarrow> ProofRow list" where
  "select_proofs_desc tbl = sort_key (\<lambda>r. - int (created_at r)) tbl"

section \<open>Initialisation\<close>

text \<open>
  The loop of \<^verbatim>\<open>insertMany\<close>: one insert per item, the statements numbered from \<open>i\<close>.
  It runs in a transaction, so an insert that throws undoes the earlier ones: the result
  is then the error alone.
\<close>

fun insertMany :: "fault \<Rightarrow> nat \<Rightarrow> ScoreCount list \<Rightarrow> ScoreCount list \<Rightarrow> exn + ScoreCount list" where
  "insertMany f i [] tbl = Inr tbl"
| "insertMany f i (item # items) tbl =
     (if stmt_fails f i then Inl SqliteError
      else (case insert_score item tbl of
              Inl e \<Rightarrow> Inl e
            | Inr tbl' \<Rightarrow> insertMany f (Suc i) items tbl'))"

text \<open>
  \<^verbatim>\<open>initDb\<close>: statements 0 to 2 create the two tables and the index if they do not
  exist, statement 3 counts the rows of \<^verbatim>\<open>scores\<close>, and an empty table is seeded
  with \<open>initialScores\<close>. The call is outside every handler: an error ends the start of
  the process (\<open>Inl\<close>), the tables being what they were.
\<close>

definition initDb :: "fault \<Rightarrow> Database \<Rightarrow> exn + Database" where
  "initDb f d =
     (if stmt_fails f 0 \<or> stmt_fails f 1 \<or> stmt_fails f 2 \<or> stmt_fails f 3
      then Inl SqliteError
      else if length (scores d) = 0
      then (case insertMany f 4 initialScores (scores d) of
              Inl e \<Rightarrow> Inl e
            | Inr tbl \<Rightarrow> Inr (d\<lparr>scores := tbl\<rparr>))
      else Inr d)"

section \<open>Responses\<close>

datatype json_body =
    ScoresBody "ScoreCount list"
  | ProofsBody "ProofRow list"
  | ErrorBody string
  | MessageBody string int

record response =
  status :: nat
  body :: json_body

text \<open>\<^verbatim>\<open>res.json(v)\<close> answers with status 200; \<^verbatim>\<open>res.status(n).json(v)\<close> with \<open>n\<close>.\<close>

definition json :: "json_body \<Rightarrow> response" where
  "json v = \<lparr>status = 200, body = v\<rparr>"

definition status_json :: "nat \<Rightarrow> json_body \<Rightarrow> response" where
  "status_json n v = \<lparr>status = n, body = v\<rparr>"

text \<open>
  The \<^verbatim>\<open>catch\<close> block of a route: whatever was thrown, the answer is status 500 with
  the route's message.
\<close>

definition catch_all :: "string \<Rightarrow> exn + response \<Rightarrow> response" where
  "catch_all msg r = (case r of Inl e \<Rightarrow> status_json 500 (ErrorBody msg) | Inr resp \<Rightarrow> resp)"

section \<open>The two GET routes\<close>

definition get_scores_try :: "fault \<Rightarrow> Database \<Rightarrow> exn + response" where
  "get_scores_try f d =
     (if stmt_fails f 0 then Inl SqliteError
      else Inr (json (ScoresBody (select_scores_desc (scores d)))))"

definition get_scores :: "fault \<Rightarrow> Database \<Rightarrow> response" where
  "get_scores f d = catch_all ''Failed to fetch scores'' (get_scores_try f d)"

definition get_proofs_try :: "fault \<Rightarrow> Database \<Rightarrow> exn + response" where
  "get_proofs_try f d =
     (if stmt_fails f 0 then Inl SqliteError
      else Inr (json (ProofsBody (select_proofs_desc (proofs d)))))"

definition get_proofs :: "fault \<Rightarrow> Database \<Rightarrow> response" where
  "get_proofs f d = catch_all ''Failed to fetch proofs'' (get_proofs_try f d)"

section \<open>Submitting a proof\<close>

text \<open>
  Modelled from the spec: the verifier \<^verbatim>\<open>verify2048Proof\<close> of \<^verbatim>\<open>./zk\<close> is not
  part of the sources. It consumes the parsed proof and returns an identifier and a score,
  or a sentinel invalid score. Its promise either rejects or resolves to the pair
  \<^verbatim>\<open>[proofId, parsedScore]\<close>; the identifier may be missing (\<open>None\<close>) and the score is
  an integer or not-a-number.
\<close>

datatype jsnum = NaN | Num int

datatype verifier_result = Rejects | Resolves "string option" jsnum

text \<open>
  One request to \<^verbatim>\<open>POST /scores/proof\<close> together with what its run meets:
  \<open>req_file\<close> is the uploaded file as the text \<^verbatim>\<open>req.file.buffer.toString('utf-8').trim()\<close>
  (\<open>None\<close> when no file came), \<open>json_valid\<close> whether \<^verbatim>\<open>JSON.parse\<close> accepts that text,
  \<open>verified\<close> what the verifier answers for the parsed proof, \<open>db_fault\<close> the statement
  that fails for an outside reason, and \<open>now\<close> the time of the database clock.
\<close>

record submission =
  req_file :: "string option"
  json_valid :: bool
  verified :: verifier_result
  db_fault :: fault
  now :: nat

text \<open>\<^verbatim>\<open>!proofId\<close>: a missing identifier and the empty string are falsy.\<close>

definition falsy :: "string option \<Rightarrow> bool" where
  "falsy p = (case p of None \<Rightarrow> True | Some s \<Rightarrow> s = [])"

definition isNaN :: "jsnum \<Rightarrow> bool" where
  "isNaN x = (case x of NaN \<Rightarrow> True | Num n \<Rightarrow> False)"

text \<open>The test of line 153: \<^verbatim>\<open>!proofId || parsedScore == -1 || isNaN(parsedScore)\<close>.\<close>

definition invalid_proof_data :: "string option \<Rightarrow> jsnum \<Rightarrow> bool" where
  "invalid_proof_data pid parsedScore =
     (falsy pid \<or> parsedScore = Num (- 1) \<or> isNaN parsedScore)"

text \<open>
  Step 5 of the handler, statements 2 and 3: look the score up, then add one to its count
  or create its row with count 1. The result is the error thrown, if any, and the tables
  as the step leaves them.
\<close>

definition update_or_insert_score :: "fault \<Rightarrow> int \<Rightarrow> Database \<Rightarrow> exn option \<times> Database" where
  "update_or_insert_score f parsedScore d =
     (if stmt_fails f 2 then (Some SqliteError, d)
      else (case select_score parsedScore (scores d) of
              Some scoreRow \<Rightarrow>
                (if stmt_fails f 3 then (Some SqliteError, d)
                 else (None, d\<lparr>scores := increment_score parsedScore (scores d)\<rparr>))
            | None \<Rightarrow>
                (if stmt_fails f 3 then (Some SqliteError, d)
                 else (case insert_score \<lparr>score = parsedScore, count = 1\<rparr> (scores d) of
                         Inl e \<Rightarrow> (Some e, d)
                       | Inr tbl \<Rightarrow> (None, d\<lparr>scores := tbl\<rparr>)))))"

text \<open>
  Steps 3 to 6, for a verifier result that passed the test of line 153: statement 0 looks
  the identifier up, statement 1 inserts the proof row, then step 5, then the answer 201.
\<close>

definition store_proof ::
    "fault \<Rightarrow> nat \<Rightarrow> string \<Rightarrow> string \<Rightarrow> int \<Rightarrow> Database \<Rightarrow> (exn + response) \<times> Database" where
  "store_proof f t content pid parsedScore d =
     (if stmt_fails f 0 then (Inl SqliteError, d)
      else (case select_proof pid (proofs d) of
              Some existingProof \<Rightarrow>
                (Inr (status_json 400 (ErrorBody ''Proof already submitted'')), d)
            | None \<Rightarrow>
                (if stmt_fails f 1 then (Inl SqliteError, d)
                 else (case insert_proof
                              \<lparr>proofId = pid, proof_text = content,
                               proof_score = parsedScore, created_at = t\<rparr> (proofs d) of
                         Inl e \<Rightarrow> (Inl e, d)
                       | Inr tbl \<Rightarrow>
                           (case update_or_insert_score f parsedScore (d\<lparr>proofs := tbl\<rparr>) of
                              (Some e, d') \<Rightarrow> (Inl e, d')
                            | (None, d') \<Rightarrow>
                                (Inr (status_json 201
                                   (MessageBody ''Proof verified and score updated'' parsedScore)),
                                 d'))))))"

text \<open>
  The body of the \<^verbatim>\<open>try\<close> block of \<^verbatim>\<open>POST /scores/proof\<close>. After the test of
  line 153 the identifier is a non-empty string and the score an integer; the last two
  cases only give the pair its types and are never taken.
\<close>

definition post_proof_try :: "submission \<Rightarrow> Database \<Rightarrow> (exn + response) \<times> Database" where
  "post_proof_try req d =
     (case req_file req of
        None \<Rightarrow> (Inr (status_json 400 (ErrorBody ''No proof file uploaded'')), d)
      | Some content \<Rightarrow>
          (if \<not> json_valid req then (Inl SyntaxError, d)
           else (case verified req of
                   Rejects \<Rightarrow> (Inl VerifierError, d)
                 | Resolves pid parsedScore \<Rightarrow>
                     (if invalid_proof_data pid parsedScore
                      then (Inr (status_json 400 (ErrorBody ''Invalid proof data'')), d)
                      else (case (pid, parsedScore) of
                              (Some p, Num s) \<Rightarrow> store_proof (db_fault req) (now req) content p s d
                            | (None, _) \<Rightarrow>
                                (Inr (status_json 400 (ErrorBody ''Invalid proof data'')), d)
                            | (_, NaN) \<Rightarrow>
                                (Inr (status_json 400 (ErrorBody ''Invalid proof data'')), d))))))"

definition post_proof :: "submission \<Rightarrow> Database \<Rightarrow> response \<times> Database" where
  "post_proof req d =
     (case post_proof_try req d of
        (r, d') \<Rightarrow> (catch_all ''Failed to process proof'' r, d'))"

section \<open>Runs of the service\<close>

datatype request = GetScores fault | GetProofs fault | PostProof submission

fun handle :: "request \<Rightarrow> Database \<Rightarrow> response \<times> Database" where
  "handle (GetScores f) d = (get_scores f d, d)"
| "handle (GetProofs f) d = (get_proofs f d, d)"
| "handle (PostProof req) d = post_proof req d"

text \<open>
  What happens to the database over time: the process starts (and runs \<open>initDb\<close>), or a
  running process answers a request. A start that fails leaves the tables as they were.
\<close>

datatype event = Start fault | Request request

fun step :: "event \<Rightarrow> Database \<Rightarrow> Database" where
  "step (Start f) d = (case initDb f d of Inl e \<Rightarrow> d | Inr d' \<Rightarrow> d')"
| "step (Request r) d = snd (handle r d)"

definition run :: "event list \<Rightarrow> Database \<Rightarrow> Database" where
  "run evs d = fold step evs d"

section \<open>Notions the properties are stated with\<close>

text \<open>The number of rows of \<^verbatim>\<open>proofs\<close> whose score is \<open>s\<close>.\<close>

definition proofs_with_score :: "Database \<Rightarrow> int \<Rightarrow> nat" where
  "proofs_with_score d s = length (filter (\<lambda>p. proof_score p = s) (proofs d))"

text \<open>Every row of \<^verbatim>\<open>scores\<close> counts the proofs of its score.\<close>

definition counts_match :: "Database \<Rightarrow> bool" where
  "counts_match d = (\<forall>r \<in> set (scores d). count r = int (proofs_with_score d (score r)))"

text \<open>
  A submission is torn in a state when its handler throws after it has written: the proof
  row is stored and the error of statement 2 or 3 keeps the score from being counted.
\<close>

fun torn :: "event \<Rightarrow> Database \<Rightarrow> bool" where
  "torn (Request (PostProof req)) d =
     (case post_proof_try req d of (Inl e, d') \<Rightarrow> d' \<noteq> d | (Inr r, d') \<Rightarrow> False)"
| "torn (Request (GetScores f)) d = False"
| "torn (Request (GetProofs f)) d = False"
| "torn (Start f) d = False"

fun no_torn_write :: "event list \<Rightarrow> Database \<Rightarrow> bool" where
  "no_torn_write [] d = True"
| "no_torn_write (ev # evs) d = (\<not> torn ev d \<and> no_torn_write evs (step ev d))"

text \<open>The ways the handler of a submission ends before it reaches the database.\<close>

definition early_exit :: "exn + response \<Rightarrow> bool" where
  "early_exit res =
     (res = Inr (status_json 400 (ErrorBody ''No proof file uploaded'')) \<or>
      res = Inl SyntaxError \<or> res = Inl VerifierError \<or>
      res = Inr (status_json 400 (ErrorBody ''Invalid proof data'')))"

text \<open>The tables after both writes of a submission: the proof row and its score.\<close>

definition both_writes :: "ProofRow \<Rightarrow> Database \<Rightarrow> Database" where
  "both_writes row d =
     d\<lparr>proofs := proofs d @ [row],
       scores := (if proof_score row \<in> set (map score (scores d))
                  then increment_score (proof_score row) (scores d)
                  else scores d @ [\<lparr>score = proof_score row, count = 1\<rparr>])\<rparr>"

text \<open>
  The invariant behind \<open>counts_match\<close>: the keys of \<^verbatim>\<open>scores\<close> are distinct, a
  stored score counts its proofs, and a score that is not stored has no proof.
\<close>

definition tally :: "Database \<Rightarrow> bool" where
  "tally d =
     (distinct (map score (scores d)) \<and>
      (\<forall>s. int (proofs_with_score d s) =
            (case select_score s (scores d) of None \<Rightarrow> 0 | Some r \<Rightarrow> count r)))"

section \<open>Sample data\<close>

definition seeded_db :: Database where
  "seeded_db = \<lparr>scores = initialScores, proofs = []\<rparr>"

definition submission_a :: submission where
  "submission_a = \<lparr>req_file = Some ''{}'', json_valid = True,
      verified = Resolves (Some ''a'') (Num 2048), db_fault = None, now = 1\<rparr>"

definition submission_b :: submission where
  "submission_b = \<lparr>req_file = Some ''[]'', json_valid = True,
      verified = Resolves (Some ''b'') (Num 3), db_fault = None, now = 2\<rparr>"

definition sample_run :: "event list" where
  "sample_run =
     [Request (PostProof submission_a), Request (PostProof submission_a),
      Request (GetScores None), Start None, Request (PostProof submission_b)]"

section \<open>Basic facts\<close>

lemma status_json_simps [simp]:
  "status (status_json n v) = n" "body (status_json n v) = v"
  "status (json v) = 200" "body (json v) = v"
  by (simp_all add: status_json_def json_def)

lemma catch_all_simps [simp]:
  "catch_all msg (Inl e) = status_json 500 (ErrorBody msg)"
  "catch_all msg (Inr r) = r"
  by (simp_all add: catch_all_def)

lemma select_score_None: "select_score s tbl = None \<longleftrightarrow> s \<notin> set (map score tbl)"
  unfolding select_score_def by (auto simp: find_None_iff)

lemma select_score_Some: "select_score s tbl = Some r \<Longrightarrow> score r = s \<and> r \<in> set tbl"
  unfolding select_score_def by (auto simp: find_Some_iff)

lemma select_score_distinct:
  "distinct (map score tbl) \<Longrightarrow> r \<in> set tbl \<Longrightarrow> select_score (score r) tbl = Some r"
  unfolding select_score_def
  by (induction tbl) (auto simp: image_iff)

lemma map_score_increment [simp]: "map score (increment_score s tbl) = map score tbl"
  by (simp add: increment_score_def)

lemma select_score_increment:
  "select_score s' (increment_score s tbl) =
     map_option (\<lambda>r. if score r = s then r\<lparr>count := count r + 1\<rparr> else r) (select_score s' tbl)"
  unfolding select_score_def increment_score_def
  by (induction tbl) auto

lemma select_score_append:
  "select_score s' (tbl @ [r]) =
     (case select_score s' tbl of
        Some x \<Rightarrow> Some x
      | None \<Rightarrow> if score r = s' then Some r else None)"
  unfolding select_score_def
  by (induction tbl) auto

lemma increment_score_split:
  assumes "distinct (map score (before @ r # after))"
  shows "increment_score (score r) (before @ r # after) =
           before @ r\<lparr>count := count r + 1\<rparr> # after"
proof -
  have "\<forall>x \<in> set before \<union> set after. score x \<noteq> score r"
    using assms by (auto simp: image_iff)
  then have "map (\<lambda>x. if score x = score r then x\<lparr>count := count x + 1\<rparr> else x) before = before"
    and "map (\<lambda>x. if score x = score r then x\<lparr>count := count x + 1\<rparr> else x) after = after"
    by (simp_all add: map_idI)
  then show ?thesis by (simp add: increment_score_def)
qed

subsection \<open>Initialisation\<close>

lemma insertMany_result: "insertMany f i items tbl = Inr t \<Longrightarrow> t = tbl @ items"
proof (induction items arbitrary: i tbl)
  case Nil
  then show ?case by simp
next
  case (Cons a items)
  then have "insertMany f (Suc i) items (tbl @ [a]) = Inr t"
    by (auto simp: insert_score_def split: if_splits)
  then have "t = (tbl @ [a]) @ items" by (rule Cons.IH)
  then show ?case by simp
qed

lemma insertMany_initial: "insertMany None i initialScores [] = Inr initialScores"
  by (simp add: initialScores_def insert_score_def stmt_fails_def)

lemma distinct_initialScores: "distinct (map score initialScores)"
  by (simp add: initialScores_def)

lemma count_initialScores: "r \<in> set initialScores \<Longrightarrow> count r = 0"
  by (auto simp: initialScores_def)

lemma ladder:
  "initialScores = map (\<lambda>s. \<lparr>score = s, count = 0\<rparr>)
     [131072, 65536, 32768, 16384, 8192, 4096, 2048, 1024, 512, 256, 128, 64, 32, 16, 8, 4, 2]"
  by (simp add: initialScores_def)

lemma initDb_cases:
  "initDb f d = Inr d' \<Longrightarrow>
     (scores d = [] \<and> d' = d\<lparr>scores := initialScores\<rparr>) \<or> (scores d \<noteq> [] \<and> d' = d)"
  by (auto simp: initDb_def split: if_splits sum.splits dest!: insertMany_result)

lemma initDb_None:
  "initDb None d = Inr (if scores d = [] then d\<lparr>scores := initialScores\<rparr> else d)"
  by (simp add: initDb_def stmt_fails_def insertMany_initial)

lemma initDb_fresh: "initDb None fresh_db = Inr seeded_db"
  by (simp add: initDb_None fresh_db_def seeded_db_def)

subsection \<open>The paths of a submission\<close>

lemma update_or_insert_score_cases:
  "update_or_insert_score f s d = (r, d') \<Longrightarrow>
     (r = Some SqliteError \<and> d' = d \<and> (f = Some 2 \<or> f = Some 3)) \<or>
     (r = None \<and> f \<noteq> Some 2 \<and> f \<noteq> Some 3 \<and>
        d' = d\<lparr>scores := (if s \<in> set (map score (scores d))
                          then increment_score s (scores d)
                          else scores d @ [\<lparr>score = s, count = 1\<rparr>])\<rparr>)"
  by (auto simp: update_or_insert_score_def stmt_fails_def select_score_def insert_score_def
      find_None_iff find_Some_iff split: option.splits if_splits sum.splits)

lemma store_proof_cases:
  "store_proof f t content pid s d = (res, d') \<Longrightarrow>
     (d' = d \<and> res = Inl SqliteError \<and>
        (f = Some 0 \<or> (f = Some 1 \<and> pid \<notin> set (map proofId (proofs d))))) \<or>
     (d' = d \<and> res = Inr (status_json 400 (ErrorBody ''Proof already submitted'')) \<and>
        f \<noteq> Some 0 \<and> pid \<in> set (map proofId (proofs d))) \<or>
     (pid \<notin> set (map proofId (proofs d)) \<and> res = Inl SqliteError \<and>
        (f = Some 2 \<or> f = Some 3) \<and>
        d' = d\<lparr>proofs := proofs d @
               [\<lparr>proofId = pid, proof_text = content, proof_score = s, created_at = t\<rparr>]\<rparr>) \<or>
     (pid \<notin> set (map proofId (proofs d)) \<and>
        f \<noteq> Some 0 \<and> f \<noteq> Some 1 \<and> f \<noteq> Some 2 \<and> f \<noteq> Some 3 \<and>
        res = Inr (status_json 201 (MessageBody ''Proof verified and score updated'' s)) \<and>
        d' = both_writes
               \<lparr>proofId = pid, proof_text = content, proof_score = s, created_at = t\<rparr> d)"
  apply (simp add: store_proof_def stmt_fails_def select_proof_def insert_proof_def both_writes_def
      split: option.splits if_splits sum.splits prod.splits)
  apply (auto simp: find_None_iff find_Some_iff dest!: update_or_insert_score_cases)
  done

text \<open>A verifier result that passes the test of line 153 is a non-empty string and an integer.\<close>

lemma valid_result_typed:
  "\<not> invalid_proof_data pid parsedScore \<Longrightarrow>
     \<exists>p s. pid = Some p \<and> parsedScore = Num s \<and> p \<noteq> [] \<and> s \<noteq> - 1"
  by (cases pid; cases parsedScore) (auto simp: invalid_proof_data_def falsy_def isNaN_def)

lemma post_proof_try_cases:
  "post_proof_try req d = (res, d') \<Longrightarrow>
     (d' = d \<and> early_exit res) \<or>
     (\<exists>content pid s. req_file req = Some content \<and> json_valid req \<and>
        verified req = Resolves (Some pid) (Num s) \<and> pid \<noteq> [] \<and> s \<noteq> - 1 \<and>
        store_proof (db_fault req) (now req) content pid s d = (res, d'))"
  by (auto simp: post_proof_try_def early_exit_def invalid_proof_data_def falsy_def isNaN_def
      split: option.splits if_splits verifier_result.splits jsnum.splits)

lemma post_proof_eq:
  "post_proof req d = (resp, d') \<longleftrightarrow>
     (\<exists>res. post_proof_try req d = (res, d') \<and> resp = catch_all ''Failed to process proof'' res)"
  by (auto simp: post_proof_def split: prod.splits)

text \<open>
  The four ways a submission ends: the tables untouched, with an answer that is not 201;
  the proof row alone written and the error caught; or both writes done and the answer 201.
\<close>

lemma post_proof_cases:
  assumes "post_proof req d = (resp, d')"
  shows "(d' = d \<and> status resp \<noteq> 201) \<or>
     (\<exists>content pid s. req_file req = Some content \<and> json_valid req \<and>
        verified req = Resolves (Some pid) (Num s) \<and> pid \<notin> set (map proofId (proofs d)) \<and>
        ((status resp = 500 \<and> (\<exists>e. fst (post_proof_try req d) = Inl e) \<and>
          d' = d\<lparr>proofs := proofs d @
                 [\<lparr>proofId = pid, proof_text = content, proof_score = s,
                   created_at = now req\<rparr>]\<rparr>) \<or>
         (status resp = 201 \<and>
          d' = both_writes
                 \<lparr>proofId = pid, proof_text = content, proof_score = s,
                  created_at = now req\<rparr> d)))"
proof -
  obtain res where p: "post_proof_try req d = (res, d')"
    and r: "resp = catch_all ''Failed to process proof'' res"
    using assms by (auto simp: post_proof_eq)
  from post_proof_try_cases [OF p] show ?thesis
  proof
    assume "d' = d \<and> early_exit res"
    then show ?thesis using r by (auto simp: early_exit_def)
  next
    assume "\<exists>content pid s. req_file req = Some content \<and> json_valid req \<and>
        verified req = Resolves (Some pid) (Num s) \<and> pid \<noteq> [] \<and> s \<noteq> - 1 \<and>
        store_proof (db_fault req) (now req) content pid s d = (res, d')"
    then obtain content pid s where v: "req_file req = Some content" "json_valid req"
        "verified req = Resolves (Some pid) (Num s)"
      and sp: "store_proof (db_fault req) (now req) content pid s d = (res, d')"
      by blast
    show ?thesis
      using store_proof_cases [OF sp] r v p by auto
  qed
qed

section \<open>Initialisation: the seed ladder\<close>

text \<open>
  Claim C5. When \<open>initDb\<close> runs against an empty \<^verbatim>\<open>scores\<close> table and no statement
  fails, the table afterwards holds exactly the rows of the descending ladder 131072, 65536,
  ..., 4, 2 (the powers of two from the 17th down to the first), each with count 0, and
  nothing else changes; whatever the environment, a run of \<open>initDb\<close> that returns has
  seeded exactly these rows.
\<close>

theorem initDb_seeds_ladder:
  assumes "scores d = []"
  shows "initDb None d = Inr (d\<lparr>scores := map (\<lambda>s. \<lparr>score = s, count = 0\<rparr>)
      [131072, 65536, 32768, 16384, 8192, 4096, 2048, 1024, 512, 256, 128, 64, 32, 16, 8, 4, 2]\<rparr>) \<and>
    (\<forall>f d'. initDb f d = Inr d' \<longrightarrow> d' = d\<lparr>scores := map (\<lambda>s. \<lparr>score = s, count = 0\<rparr>)
      [131072, 65536, 32768, 16384, 8192, 4096, 2048, 1024, 512, 256, 128, 64, 32, 16, 8, 4, 2]\<rparr>) \<and>
    map score initialScores = map (\<lambda>k. 2 ^ k) (rev [1..<18])"
proof -
  have "map score initialScores = map (\<lambda>k. 2 ^ k) (rev [1..<18])"
    by (simp add: initialScores_def upt_rec)
  then show ?thesis
    using assms initDb_cases [of _ d] unfolding ladder [symmetric]
    by (auto simp: initDb_None)
qed

theorem initDb_seeds_ladder_witness:
  "scores fresh_db = [] \<and>
   initDb None fresh_db = Inr \<lparr>scores = map (\<lambda>s. \<lparr>score = s, count = 0\<rparr>)
      [131072, 65536, 32768, 16384, 8192, 4096, 2048, 1024, 512, 256, 128, 64, 32, 16, 8, 4, 2],
      proofs = []\<rparr>"
proof -
  have h: "scores fresh_db = []" by (simp add: fresh_db_def)
  show ?thesis
    using initDb_seeds_ladder [OF h] h by (simp add: fresh_db_def)
qed

text \<open>
  Claim C10. When \<open>initDb\<close> runs against a non-empty \<^verbatim>\<open>scores\<close> table it returns
  the database as it was, and a start of the process leaves it as it was whether or not a
  statement fails. So after any run of \<open>initDb\<close> that returned, running it again changes
  nothing: the ladder is neither reset nor duplicated.
\<close>

theorem initDb_idempotent:
  "(scores d \<noteq> [] \<longrightarrow> initDb None d = Inr d \<and> step (Start f) d = d) \<and>
   (initDb g d = Inr d1 \<longrightarrow> initDb None d1 = Inr d1 \<and> step (Start f) d1 = d1)"
proof -
  have a: "initDb None x = Inr x \<and> step (Start f) x = x" if "scores x \<noteq> []" for x
    using that initDb_cases [of f x] by (auto simp: initDb_None split: sum.splits)
  have "scores d1 \<noteq> []" if "initDb g d = Inr d1"
    using initDb_cases [OF that] by (auto simp: initialScores_def)
  with a show ?thesis by blast
qed

theorem initDb_idempotent_witness:
  "scores seeded_db \<noteq> [] \<and> initDb None seeded_db = Inr seeded_db \<and>
   step (Start (Some 2)) seeded_db = seeded_db \<and>
   initDb None fresh_db = Inr seeded_db \<and> step (Start None) seeded_db = seeded_db"
proof -
  have h: "scores seeded_db \<noteq> []" by (simp add: seeded_db_def initialScores_def)
  show ?thesis
    using initDb_idempotent [of seeded_db "Some 2" None seeded_db]
      initDb_idempotent [of fresh_db None None seeded_db] h initDb_fresh
    by simp
qed

section \<open>Reading the scores\<close>

lemma select_scores_desc_sorted:
  assumes "distinct (map score tbl)"
  shows "sorted_wrt (\<lambda>a b. score b < score a) (select_scores_desc tbl)"
proof -
  let ?k = "\<lambda>r. - score r"
  have d: "distinct tbl" and "inj_on score (set tbl)"
    using assms by (simp_all add: distinct_map)
  then have "inj_on ?k (set tbl)"
    by (auto simp: inj_on_def)
  with d have "distinct (map ?k (sort_key ?k tbl))"
    by (simp add: distinct_map)
  moreover have "sorted (map ?k (sort_key ?k tbl))"
    by (rule sorted_sort_key)
  ultimately have "sorted_wrt (<) (map ?k (sort_key ?k tbl))"
    by (simp add: strict_sorted_iff)
  then show ?thesis
    by (simp add: sorted_wrt_map select_scores_desc_def)
qed

text \<open>
  Claim C7. In every database state (the keys of \<^verbatim>\<open>scores\<close> being distinct, as its
  primary key has it), \<^verbatim>\<open>GET /scores\<close> whose query does not fail answers 200 with
  a list that holds exactly the rows of \<^verbatim>\<open>scores\<close>, each once, in strictly
  descending order of score. (A query that fails is answered by the catch-all, see C8.)
\<close>

theorem get_scores_descending:
  assumes "distinct (map score (scores d))"
  shows "\<exists>rows. (\<forall>f. f \<noteq> Some 0 \<longrightarrow> get_scores f d = \<lparr>status = 200, body = ScoresBody rows\<rparr>) \<and>
           set rows = set (scores d) \<and> length rows = length (scores d) \<and>
           sorted_wrt (\<lambda>a b. score b < score a) rows"
proof (intro exI conjI allI impI)
  fix f :: fault
  assume "f \<noteq> Some 0"
  then show "get_scores f d = \<lparr>status = 200, body = ScoresBody (select_scores_desc (scores d))\<rparr>"
    by (simp add: get_scores_def get_scores_try_def stmt_fails_def json_def)
next
  show "set (select_scores_desc (scores d)) = set (scores d)"
    by (simp add: select_scores_desc_def)
  show "length (select_scores_desc (scores d)) = length (scores d)"
    by (simp add: select_scores_desc_def)
  show "sorted_wrt (\<lambda>a b. score b < score a) (select_scores_desc (scores d))"
    using assms by (rule select_scores_desc_sorted)
qed

theorem get_scores_descending_witness:
  "distinct (map score (scores (run sample_run seeded_db))) \<and>
   (\<exists>rows. get_scores None (run sample_run seeded_db) = \<lparr>status = 200, body = ScoresBody rows\<rparr> \<and>
      set rows = set (scores (run sample_run seeded_db)) \<and>
      length rows = 18 \<and>
      sorted_wrt (\<lambda>a b. score b < score a) rows)"
proof -
  have h: "distinct (map score (scores (run sample_run seeded_db)))"
    by code_simp
  have n: "length (scores (run sample_run seeded_db)) = 18"
    by code_simp
  from get_scores_descending [OF h] obtain rows where
    "\<forall>f. f \<noteq> Some 0 \<longrightarrow>
       get_scores f (run sample_run seeded_db) = \<lparr>status = 200, body = ScoresBody rows\<rparr>"
    and "set rows = set (scores (run sample_run seeded_db))"
    and "length rows = length (scores (run sample_run seeded_db))"
    and "sorted_wrt (\<lambda>a b. score b < score a) rows"
    by blast
  with h n show ?thesis by auto
qed

section \<open>The catch-all of the three routes\<close>

lemma store_proof_raises:
  assumes "stmt_fails f 0 \<or> (pid \<notin> set (map proofId (proofs d)) \<and>
             (stmt_fails f 1 \<or> stmt_fails f 2 \<or> stmt_fails f 3))"
  shows "fst (store_proof f t content pid s d) = Inl SqliteError"
proof (cases "stmt_fails f 0")
  case True
  then show ?thesis by (simp add: store_proof_def)
next
  case False
  with assms have n: "select_proof pid (proofs d) = None"
    and k: "stmt_fails f 1 \<or> stmt_fails f 2 \<or> stmt_fails f 3"
    by (auto simp: select_proof_def find_None_iff)
  show ?thesis
    using False n k assms
    by (auto simp: store_proof_def insert_proof_def update_or_insert_score_def insert_score_def
        stmt_fails_def split: option.splits prod.splits)
qed

lemma post_proof_status_500:
  "status (fst (post_proof req d)) = 500 \<longleftrightarrow> (\<exists>e. fst (post_proof_try req d) = Inl e)"
proof -
  obtain res d' where p: "post_proof_try req d = (res, d')"
    by (cases "post_proof_try req d")
  have "status (catch_all ''Failed to process proof'' res) = 500 \<longleftrightarrow> (\<exists>e. res = Inl e)"
    using post_proof_try_cases [OF p]
    by (auto simp: early_exit_def dest!: store_proof_cases)
  then show ?thesis using p by (simp add: post_proof_def)
qed

text \<open>
  Claim C8. In each of the three routes an error thrown inside the handler is answered with
  status 500 and the route's fixed message. The steps that throw are: a database statement
  that fails (in every route), text that \<^verbatim>\<open>JSON.parse\<close> refuses, and a verifier
  whose promise rejects. Status 500 is the only status the catch-all produces, and no
  other path of a handler answers 500.
\<close>

theorem thrown_error_answers_500:
  "(get_scores_try f d = Inl e \<longrightarrow>
      get_scores f d = \<lparr>status = 500, body = ErrorBody ''Failed to fetch scores''\<rparr>) \<and>
   (get_proofs_try f d = Inl e \<longrightarrow>
      get_proofs f d = \<lparr>status = 500, body = ErrorBody ''Failed to fetch proofs''\<rparr>) \<and>
   (fst (post_proof_try req d) = Inl e \<longrightarrow>
      fst (post_proof req d) = \<lparr>status = 500, body = ErrorBody ''Failed to process proof''\<rparr>) \<and>
   (stmt_fails f 0 \<longrightarrow>
      get_scores_try f d = Inl SqliteError \<and> get_proofs_try f d = Inl SqliteError) \<and>
   (req_file req \<noteq> None \<and> \<not> json_valid req \<longrightarrow>
      fst (post_proof_try req d) = Inl SyntaxError) \<and>
   (req_file req \<noteq> None \<and> json_valid req \<and> verified req = Rejects \<longrightarrow>
      fst (post_proof_try req d) = Inl VerifierError) \<and>
   (req_file req \<noteq> None \<and> json_valid req \<and> verified req = Resolves (Some pid) (Num s) \<and>
    pid \<noteq> [] \<and> s \<noteq> - 1 \<and>
    (stmt_fails (db_fault req) 0 \<or>
     (pid \<notin> set (map proofId (proofs d)) \<and>
      (stmt_fails (db_fault req) 1 \<or> stmt_fails (db_fault req) 2 \<or>
       stmt_fails (db_fault req) 3))) \<longrightarrow>
      fst (post_proof_try req d) = Inl SqliteError) \<and>
   (status (get_scores f d) = 500 \<longleftrightarrow> (\<exists>x. get_scores_try f d = Inl x)) \<and>
   (status (get_proofs f d) = 500 \<longleftrightarrow> (\<exists>x. get_proofs_try f d = Inl x)) \<and>
   (status (fst (post_proof req d)) = 500 \<longleftrightarrow> (\<exists>x. fst (post_proof_try req d) = Inl x))"
proof (intro conjI impI)
  show "get_scores f d = \<lparr>status = 500, body = ErrorBody ''Failed to fetch scores''\<rparr>"
    if "get_scores_try f d = Inl e"
    using that by (simp add: get_scores_def status_json_def)
  show "get_proofs f d = \<lparr>status = 500, body = ErrorBody ''Failed to fetch proofs''\<rparr>"
    if "get_proofs_try f d = Inl e"
    using that by (simp add: get_proofs_def status_json_def)
  show "fst (post_proof req d) = \<lparr>status = 500, body = ErrorBody ''Failed to process proof''\<rparr>"
    if "fst (post_proof_try req d) = Inl e"
    using that by (cases "post_proof_try req d") (simp add: post_proof_def status_json_def)
  show "get_scores_try f d = Inl SqliteError" if "stmt_fails f 0"
    using that by (simp add: get_scores_try_def)
  show "get_proofs_try f d = Inl SqliteError" if "stmt_fails f 0"
    using that by (simp add: get_proofs_try_def)
  show "fst (post_proof_try req d) = Inl SyntaxError"
    if "req_file req \<noteq> None \<and> \<not> json_valid req"
    using that by (auto simp: post_proof_try_def)
  show "fst (post_proof_try req d) = Inl VerifierError"
    if "req_file req \<noteq> None \<and> json_valid req \<and> verified req = Rejects"
    using that by (auto simp: post_proof_try_def)
  show "fst (post_proof_try req d) = Inl SqliteError"
    if h: "req_file req \<noteq> None \<and> json_valid req \<and>
      verified req = Resolves (Some pid) (Num s) \<and> pid \<noteq> [] \<and> s \<noteq> - 1 \<and>
      (stmt_fails (db_fault req) 0 \<or>
       (pid \<notin> set (map proofId (proofs d)) \<and>
        (stmt_fails (db_fault req) 1 \<or> stmt_fails (db_fault req) 2 \<or>
         stmt_fails (db_fault req) 3)))"
  proof -
    obtain content where c: "req_file req = Some content"
      using h by auto
    have "post_proof_try req d = store_proof (db_fault req) (now req) content pid s d"
      using h c
      by (simp add: post_proof_try_def invalid_proof_data_def falsy_def isNaN_def)
    then show ?thesis
      using h store_proof_raises by simp
  qed
  show "status (get_scores f d) = 500 \<longleftrightarrow> (\<exists>x. get_scores_try f d = Inl x)"
    by (simp add: get_scores_def get_scores_try_def)
  show "status (get_proofs f d) = 500 \<longleftrightarrow> (\<exists>x. get_proofs_try f d = Inl x)"
    by (simp add: get_proofs_def get_proofs_try_def)
  show "status (fst (post_proof req d)) = 500 \<longleftrightarrow> (\<exists>x. fst (post_proof_try req d) = Inl x)"
    by (rule post_proof_status_500)
qed

theorem thrown_error_answers_500_witness:
  "get_scores (Some 0) seeded_db = \<lparr>status = 500, body = ErrorBody ''Failed to fetch scores''\<rparr> \<and>
   get_proofs (Some 0) seeded_db = \<lparr>status = 500, body = ErrorBody ''Failed to fetch proofs''\<rparr> \<and>
   fst (post_proof (submission_a\<lparr>json_valid := False\<rparr>) seeded_db) =
     \<lparr>status = 500, body = ErrorBody ''Failed to process proof''\<rparr> \<and>
   fst (post_proof (submission_a\<lparr>verified := Rejects\<rparr>) seeded_db) =
     \<lparr>status = 500, body = ErrorBody ''Failed to process proof''\<rparr> \<and>
   fst (post_proof (submission_a\<lparr>db_fault := Some 1\<rparr>) seeded_db) =
     \<lparr>status = 500, body = ErrorBody ''Failed to process proof''\<rparr> \<and>
   status (fst (post_proof submission_a seeded_db)) = 201"
proof -
  have g: "stmt_fails (Some 0) 0"
    by (simp add: stmt_fails_def)
  have j: "req_file (submission_a\<lparr>json_valid := False\<rparr>) \<noteq> None \<and>
      \<not> json_valid (submission_a\<lparr>json_valid := False\<rparr>)"
    by (simp add: submission_a_def)
  have v: "req_file (submission_a\<lparr>verified := Rejects\<rparr>) \<noteq> None \<and>
      json_valid (submission_a\<lparr>verified := Rejects\<rparr>) \<and>
      verified (submission_a\<lparr>verified := Rejects\<rparr>) = Rejects"
    by (simp add: submission_a_def)
  have q: "req_file (submission_a\<lparr>db_fault := Some 1\<rparr>) \<noteq> None \<and>
      json_valid (submission_a\<lparr>db_fault := Some 1\<rparr>) \<and>
      verified (submission_a\<lparr>db_fault := Some 1\<rparr>) = Resolves (Some ''a'') (Num 2048) \<and>
      ''a'' \<noteq> [] \<and> (2048::int) \<noteq> - 1 \<and>
      ''a'' \<notin> set (map proofId (proofs seeded_db)) \<and>
      stmt_fails (db_fault (submission_a\<lparr>db_fault := Some 1\<rparr>)) 1"
    by (simp add: submission_a_def seeded_db_def stmt_fails_def)
  have ok: "status (fst (post_proof submission_a seeded_db)) = 201"
    by code_simp
  show ?thesis
    using thrown_error_answers_500 [of "Some 0" seeded_db SqliteError
        "submission_a\<lparr>json_valid := False\<rparr>" "''a''" 2048]
      thrown_error_answers_500 [of "Some 0" seeded_db SyntaxError
        "submission_a\<lparr>json_valid := False\<rparr>" "''a''" 2048]
      thrown_error_answers_500 [of "Some 0" seeded_db VerifierError
        "submission_a\<lparr>verified := Rejects\<rparr>" "''a''" 2048]
      thrown_error_answers_500 [of "Some 0" seeded_db SqliteError
        "submission_a\<lparr>db_fault := Some 1\<rparr>" "''a''" 2048]
      g j v q ok
    by simp
qed

section \<open>Rejected submissions\<close>

text \<open>
  Claim C3. When the verifier answers a submission with a missing or empty identifier, or
  with the score -1, or with a score that is not a number, the answer is status 400
  (\<^verbatim>\<open>Invalid proof data\<close>) and both tables are as they were.
\<close>

theorem invalid_result_rejected:
  assumes "req_file req = Some content" and "json_valid req"
    and "verified req = Resolves pid parsedScore"
    and "pid = None \<or> pid = Some [] \<or> parsedScore = Num (- 1) \<or> parsedScore = NaN"
  shows "post_proof req d = (status_json 400 (ErrorBody ''Invalid proof data''), d)"
  using assms
  by (auto simp: post_proof_def post_proof_try_def invalid_proof_data_def falsy_def isNaN_def)

theorem invalid_result_rejected_witness:
  "post_proof (submission_a\<lparr>verified := Resolves (Some ''a'') NaN\<rparr>) seeded_db =
     (\<lparr>status = 400, body = ErrorBody ''Invalid proof data''\<rparr>, seeded_db) \<and>
   post_proof (submission_a\<lparr>verified := Resolves (Some []) (Num 2048)\<rparr>) seeded_db =
     (\<lparr>status = 400, body = ErrorBody ''Invalid proof data''\<rparr>, seeded_db) \<and>
   post_proof (submission_a\<lparr>verified := Resolves None (Num 2048)\<rparr>) seeded_db =
     (\<lparr>status = 400, body = ErrorBody ''Invalid proof data''\<rparr>, seeded_db) \<and>
   post_proof (submission_a\<lparr>verified := Resolves (Some ''a'') (Num (- 1))\<rparr>) seeded_db =
     (\<lparr>status = 400, body = ErrorBody ''Invalid proof data''\<rparr>, seeded_db)"
  using
    invalid_result_rejected [of "submission_a\<lparr>verified := Resolves (Some ''a'') NaN\<rparr>"
      "''{}''" "Some ''a''" NaN seeded_db]
    invalid_result_rejected [of "submission_a\<lparr>verified := Resolves (Some []) (Num 2048)\<rparr>"
      "''{}''" "Some []" "Num 2048" seeded_db]
    invalid_result_rejected [of "submission_a\<lparr>verified := Resolves None (Num 2048)\<rparr>"
      "''{}''" None "Num 2048" seeded_db]
    invalid_result_rejected [of "submission_a\<lparr>verified := Resolves (Some ''a'') (Num (- 1))\<rparr>"
      "''{}''" "Some ''a''" "Num (- 1)" seeded_db]
  by (simp add: submission_a_def status_json_def)

text \<open>
  Claim C9. Whenever \<^verbatim>\<open>POST /scores/proof\<close> answers with status 400, both tables
  are exactly as they were before the request.
\<close>

theorem rejection_writes_nothing:
  assumes "post_proof req d = (resp, d')" and "status resp = 400"
  shows "d' = d"
  using post_proof_cases [OF assms(1)] assms(2) by auto

theorem rejection_writes_nothing_witness:
  "status (fst (post_proof (submission_a\<lparr>req_file := None\<rparr>) seeded_db)) = 400 \<and>
   snd (post_proof (submission_a\<lparr>req_file := None\<rparr>) seeded_db) = seeded_db \<and>
   status (fst (post_proof submission_a (run sample_run seeded_db))) = 400 \<and>
   snd (post_proof submission_a (run sample_run seeded_db)) = run sample_run seeded_db"
proof -
  have a: "status (fst (post_proof (submission_a\<lparr>req_file := None\<rparr>) seeded_db)) = 400"
    by code_simp
  have b: "status (fst (post_proof submission_a (run sample_run seeded_db))) = 400"
    by code_simp
  show ?thesis
    using a b
      rejection_writes_nothing [OF prod.collapse [symmetric] a]
      rejection_writes_nothing [OF prod.collapse [symmetric] b]
    by simp
qed

text \<open>
  Claim C2, as amended. A submission for which the verifier returns an identifier that is
  already a key of \<^verbatim>\<open>proofs\<close> leaves both tables as they were, so its score is not
  counted again. Its answer is 400 \<^verbatim>\<open>Proof already submitted\<close> when the verifier's
  result passes the test of line 153 and the lookup of the identifier does not fail; it
  is 400 \<^verbatim>\<open>Invalid proof data\<close> when the result fails that test, which comes first,
  and 500 when the lookup fails.
\<close>

theorem stored_proofId_not_counted_again:
  assumes "req_file req = Some content" and "json_valid req"
    and "verified req = Resolves (Some pid) parsedScore"
    and "pid \<in> set (map proofId (proofs d))"
  shows "snd (post_proof req d) = d \<and>
     fst (post_proof req d) =
       (if invalid_proof_data (Some pid) parsedScore
        then status_json 400 (ErrorBody ''Invalid proof data'')
        else if stmt_fails (db_fault req) 0
        then status_json 500 (ErrorBody ''Failed to process proof'')
        else status_json 400 (ErrorBody ''Proof already submitted''))"
proof (cases "invalid_proof_data (Some pid) parsedScore")
  case True
  then show ?thesis
    using assms by (simp add: post_proof_def post_proof_try_def)
next
  case False
  then obtain s where s: "parsedScore = Num s"
    by (cases parsedScore) (auto simp: invalid_proof_data_def isNaN_def)
  obtain row where "select_proof pid (proofs d) = Some row"
    using assms(4)
    by (cases "select_proof pid (proofs d)") (auto simp: select_proof_def find_None_iff)
  then show ?thesis
    using assms False s by (simp add: post_proof_def post_proof_try_def store_proof_def)
qed

theorem stored_proofId_not_counted_again_witness:
  "''a'' \<in> set (map proofId (proofs (run sample_run seeded_db))) \<and>
   snd (post_proof submission_a (run sample_run seeded_db)) = run sample_run seeded_db \<and>
   fst (post_proof submission_a (run sample_run seeded_db)) =
     \<lparr>status = 400, body = ErrorBody ''Proof already submitted''\<rparr>"
proof -
  have h: "''a'' \<in> set (map proofId (proofs (run sample_run seeded_db)))"
    by code_simp
  have r: "req_file submission_a = Some ''{}''" "json_valid submission_a"
    "verified submission_a = Resolves (Some ''a'') (Num 2048)"
    by (simp_all add: submission_a_def)
  have i: "\<not> invalid_proof_data (Some ''a'') (Num 2048)"
    "\<not> stmt_fails (db_fault submission_a) 0"
    by (simp_all add: invalid_proof_data_def falsy_def isNaN_def stmt_fails_def submission_a_def)
  show ?thesis
    using stored_proofId_not_counted_again [OF r h] h i by (simp add: status_json_def)
qed

text \<open>
  The claim as it is written fails: after \<open>submission_a\<close> has been accepted, a
  submission for which the verifier returns the same identifier with the score -1 is
  answered \<^verbatim>\<open>Invalid proof data\<close>, not \<^verbatim>\<open>Proof already submitted\<close>.
\<close>

theorem stored_proofId_other_message:
  "''a'' \<in> set (map proofId (proofs (run [Request (PostProof submission_a)] seeded_db))) \<and>
   fst (post_proof (submission_a\<lparr>verified := Resolves (Some ''a'') (Num (- 1))\<rparr>)
          (run [Request (PostProof submission_a)] seeded_db))
     = status_json 400 (ErrorBody ''Invalid proof data'') \<and>
   fst (post_proof (submission_a\<lparr>verified := Resolves (Some ''a'') (Num (- 1))\<rparr>)
          (run [Request (PostProof submission_a)] seeded_db))
     \<noteq> status_json 400 (ErrorBody ''Proof already submitted'')"
  by code_simp

section \<open>Accepted submissions\<close>

text \<open>
  Claim C4. For every accepted submission (answer 201) with verifier-returned score \<open>S\<close>:
  when \<^verbatim>\<open>scores\<close> has a row for \<open>S\<close>, that row's count grows by exactly 1 and every
  other row, before and after it, stays as it was; when it has none, the row
  \<open>\<lparr>score = S, count = 1\<rparr>\<close> is added and the rows before it stay as they were.
\<close>

theorem accepted_score_counted_once:
  assumes "post_proof req d = (resp, d')" and "status resp = 201"
    and "verified req = Resolves pid (Num S)"
    and "distinct (map score (scores d))"
  shows "(S \<in> set (map score (scores d)) \<longrightarrow>
           (\<exists>before r after. scores d = before @ r # after \<and> score r = S \<and>
              scores d' = before @ r\<lparr>count := count r + 1\<rparr> # after)) \<and>
         (S \<notin> set (map score (scores d)) \<longrightarrow>
            scores d' = scores d @ [\<lparr>score = S, count = 1\<rparr>])"
proof -
  from post_proof_cases [OF assms(1)] assms(2,3)
  have d': "scores d' = (if S \<in> set (map score (scores d))
                        then increment_score S (scores d)
                        else scores d @ [\<lparr>score = S, count = 1\<rparr>])"
    by (auto simp: both_writes_def)
  show ?thesis
  proof (intro conjI impI)
    assume "S \<in> set (map score (scores d))"
    then obtain r where r: "r \<in> set (scores d)" "score r = S"
      by auto
    then obtain before after where sp: "scores d = before @ r # after"
      by (auto simp: in_set_conv_decomp)
    have "increment_score (score r) (before @ r # after) =
            before @ r\<lparr>count := count r + 1\<rparr> # after"
      using assms(4) sp by (intro increment_score_split) simp
    then show "\<exists>before r after. scores d = before @ r # after \<and> score r = S \<and>
              scores d' = before @ r\<lparr>count := count r + 1\<rparr> # after"
      using d' r sp by auto
  next
    assume "S \<notin> set (map score (scores d))"
    then show "scores d' = scores d @ [\<lparr>score = S, count = 1\<rparr>]"
      using d' by simp
  qed
qed

theorem accepted_score_counted_once_witness:
  "status (fst (post_proof submission_a seeded_db)) = 201 \<and>
   status (fst (post_proof submission_b seeded_db)) = 201 \<and>
   distinct (map score (scores seeded_db)) \<and>
   (\<exists>before r after. scores seeded_db = before @ r # after \<and> score r = 2048 \<and>
      scores (snd (post_proof submission_a seeded_db)) =
        before @ r\<lparr>count := count r + 1\<rparr> # after) \<and>
   scores (snd (post_proof submission_b seeded_db)) =
     scores seeded_db @ [\<lparr>score = 3, count = 1\<rparr>]"
proof -
  have a: "status (fst (post_proof submission_a seeded_db)) = 201"
    and b: "status (fst (post_proof submission_b seeded_db)) = 201"
    by code_simp+
  have va: "verified submission_a = Resolves (Some ''a'') (Num 2048)"
    and vb: "verified submission_b = Resolves (Some ''b'') (Num 3)"
    by (simp_all add: submission_a_def submission_b_def)
  have k: "distinct (map score (scores seeded_db))"
    by (simp add: seeded_db_def distinct_initialScores)
  have ina: "2048 \<in> set (map score (scores seeded_db))"
    and inb: "3 \<notin> set (map score (scores seeded_db))"
    by (simp_all add: seeded_db_def initialScores_def)
  show ?thesis
    using accepted_score_counted_once [OF prod.collapse [symmetric] a va k]
      accepted_score_counted_once [OF prod.collapse [symmetric] b vb k]
      a b k ina inb
    by simp
qed

section \<open>The rows of the proofs table\<close>

text \<open>
  Claim C6. Every operation of the service (a start with \<open>initDb\<close>,
  \<^verbatim>\<open>GET /scores\<close>, \<^verbatim>\<open>GET /proofs\<close>, \<^verbatim>\<open>POST /scores/proof\<close>) leaves every
  row of \<^verbatim>\<open>proofs\<close> in its place and unchanged: the table afterwards is the table
  before followed by at most one new row, and after an accepted submission by exactly one.
\<close>

theorem proofs_rows_never_change:
  "(\<exists>rows. proofs (step ev d) = proofs d @ rows \<and> length rows \<le> 1) \<and>
   (\<forall>req. ev = Request (PostProof req) \<and> status (fst (post_proof req d)) = 201 \<longrightarrow>
       (\<exists>row. proofs (step ev d) = proofs d @ [row]))"
proof (cases ev)
  case (Start f)
  then show ?thesis
    by (auto split: sum.splits dest!: initDb_cases)
next
  case (Request r)
  show ?thesis
  proof (cases r)
    case (GetScores f)
    then show ?thesis using Request by simp
  next
    case (GetProofs f)
    then show ?thesis using Request by simp
  next
    case (PostProof req)
    obtain resp d' where p: "post_proof req d = (resp, d')"
      by (cases "post_proof req d")
    have "(\<exists>rows. proofs d' = proofs d @ rows \<and> length rows \<le> 1) \<and>
          (status resp = 201 \<longrightarrow> (\<exists>row. proofs d' = proofs d @ [row]))"
      using post_proof_cases [OF p] by (auto simp: both_writes_def)
    then show ?thesis
      using p Request PostProof by simp
  qed
qed

theorem proofs_rows_never_change_witness:
  "status (fst (post_proof submission_b (run [Request (PostProof submission_a)] seeded_db))) = 201 \<and>
   (\<exists>row. proofs (step (Request (PostProof submission_b))
                    (run [Request (PostProof submission_a)] seeded_db)) =
           proofs (run [Request (PostProof submission_a)] seeded_db) @ [row])"
proof -
  have a: "status (fst (post_proof submission_b
      (run [Request (PostProof submission_a)] seeded_db))) = 201"
    by code_simp
  show ?thesis
    using proofs_rows_never_change [of "Request (PostProof submission_b)"
        "run [Request (PostProof submission_a)] seeded_db"] a
    by blast
qed

section \<open>Counts and proofs\<close>

lemma tally_counts_match: "tally d \<Longrightarrow> counts_match d"
  unfolding tally_def counts_match_def
  by (auto simp: select_score_distinct)

lemma tally_fresh: "tally fresh_db"
  by (simp add: tally_def fresh_db_def proofs_with_score_def select_score_def)

lemma tally_seed:
  assumes "tally d" and "scores d = []"
  shows "tally (d\<lparr>scores := initialScores\<rparr>)"
proof -
  have zero: "proofs_with_score d s = 0" for s
    using assms by (simp add: tally_def select_score_def)
  show ?thesis
    unfolding tally_def
  proof (intro conjI allI)
    show "distinct (map score (scores (d\<lparr>scores := initialScores\<rparr>)))"
      by (simp add: distinct_initialScores)
  next
    fix s
    show "int (proofs_with_score (d\<lparr>scores := initialScores\<rparr>) s) =
       (case select_score s (scores (d\<lparr>scores := initialScores\<rparr>)) of
          None \<Rightarrow> 0 | Some r \<Rightarrow> count r)"
      using zero [of s] select_score_Some [of s initialScores]
      by (auto simp: proofs_with_score_def count_initialScores split: option.splits)
  qed
qed

lemma tally_initDb: "tally d \<Longrightarrow> initDb f d = Inr d' \<Longrightarrow> tally d'"
  by (auto dest!: initDb_cases simp: tally_seed)

lemma tally_both_writes:
  assumes "tally d"
  shows "tally (both_writes row d)"
proof -
  let ?s = "proof_score row"
  have old: "int (proofs_with_score d s') =
      (case select_score s' (scores d) of None \<Rightarrow> 0 | Some r \<Rightarrow> count r)" for s'
    using assms by (simp add: tally_def)
  have dist: "distinct (map score (scores d))"
    using assms by (simp add: tally_def)
  show ?thesis
  proof (cases "?s \<in> set (map score (scores d))")
    case True
    then obtain r where r: "select_score ?s (scores d) = Some r"
      using select_score_None [of ?s "scores d"]
      by (cases "select_score ?s (scores d)") auto
    have "int (proofs_with_score (both_writes row d) s') =
        (case select_score s' (scores (both_writes row d)) of
           None \<Rightarrow> 0 | Some r \<Rightarrow> count r)" for s'
      using old [of s'] True r select_score_Some [of s' "scores d"]
      by (auto simp: both_writes_def proofs_with_score_def select_score_increment
          split: option.splits)
    moreover have "distinct (map score (scores (both_writes row d)))"
      using dist True by (simp add: both_writes_def)
    ultimately show ?thesis
      unfolding tally_def by blast
  next
    case False
    then have n: "select_score ?s (scores d) = None"
      by (simp add: select_score_None)
    have "int (proofs_with_score (both_writes row d) s') =
        (case select_score s' (scores (both_writes row d)) of
           None \<Rightarrow> 0 | Some r \<Rightarrow> count r)" for s'
      using old [of s'] False n select_score_Some [of s' "scores d"]
      by (auto simp: both_writes_def proofs_with_score_def select_score_append
          split: option.splits)
    moreover have "distinct (map score (scores (both_writes row d)))"
      using dist False by (simp add: both_writes_def)
    ultimately show ?thesis
      unfolding tally_def by blast
  qed
qed

lemma tally_step:
  assumes "tally d" and "\<not> torn ev d"
  shows "tally (step ev d)"
proof (cases ev)
  case (Start f)
  then show ?thesis
    using assms(1) by (auto split: sum.splits simp: tally_initDb)
next
  case (Request r)
  show ?thesis
  proof (cases r)
    case (GetScores f)
    then show ?thesis using Request assms(1) by simp
  next
    case (GetProofs f)
    then show ?thesis using Request assms(1) by simp
  next
    case (PostProof req)
    obtain resp d' where p: "post_proof req d = (resp, d')"
      by (cases "post_proof req d")
    have st: "step ev d = d'"
      using Request PostProof p by simp
    have nt: "\<not> ((\<exists>e. fst (post_proof_try req d) = Inl e) \<and> d' \<noteq> d)"
      using assms(2) Request PostProof p
      by (auto simp: post_proof_def split: prod.splits)
    have "d' = d \<or> (\<exists>row. d' = both_writes row d)"
      using post_proof_cases [OF p] nt by auto
    then show ?thesis
      using st assms(1) tally_both_writes by auto
  qed
qed

lemma tally_run: "tally d \<Longrightarrow> no_torn_write evs d \<Longrightarrow> tally (run evs d)"
  unfolding run_def
  by (induction evs arbitrary: d) (auto simp: tally_step)

text \<open>
  Claim C1, as amended. Start from the empty database, let \<open>initDb\<close> return, and then let
  the service process any sequence of requests and restarts in which no submission is
  torn, that is, no submission throws after its row was inserted into \<^verbatim>\<open>proofs\<close>.
  In the state reached, the count stored for every score of the \<^verbatim>\<open>scores\<close> table is
  the number of rows of \<^verbatim>\<open>proofs\<close> with that score.
\<close>

theorem counts_match_reachable:
  assumes "initDb f fresh_db = Inr d0" and "no_torn_write evs d0"
  shows "counts_match (run evs d0)"
  using assms tally_fresh tally_initDb tally_run tally_counts_match by blast

theorem counts_match_reachable_witness:
  "initDb None fresh_db = Inr seeded_db \<and> no_torn_write sample_run seeded_db \<and>
   counts_match (run sample_run seeded_db) \<and>
   select_score 2048 (scores (run sample_run seeded_db)) = Some \<lparr>score = 2048, count = 1\<rparr> \<and>
   proofs_with_score (run sample_run seeded_db) 2048 = 1"
proof -
  have n: "no_torn_write sample_run seeded_db"
    by code_simp
  have c: "select_score 2048 (scores (run sample_run seeded_db)) = Some \<lparr>score = 2048, count = 1\<rparr>"
    "proofs_with_score (run sample_run seeded_db) 2048 = 1"
    by code_simp+
  show ?thesis
    using counts_match_reachable [OF initDb_fresh n] initDb_fresh n c by simp
qed

text \<open>
  The claim as it is written fails. The two writes of a submission are two statements,
  not one transaction: when the second one throws (here statement 3, the
  \<^verbatim>\<open>UPDATE\<close> of the count), the handler answers 500, the row of \<^verbatim>\<open>proofs\<close>
  stays, and the count of its score stays behind.
\<close>

theorem torn_submission_breaks_counts:
  "initDb None fresh_db = Inr seeded_db \<and>
   fst (post_proof (submission_a\<lparr>db_fault := Some 3\<rparr>) seeded_db) =
     status_json 500 (ErrorBody ''Failed to process proof'') \<and>
   select_score 2048
     (scores (run [Request (PostProof (submission_a\<lparr>db_fault := Some 3\<rparr>))] seeded_db)) =
     Some \<lparr>score = 2048, count = 0\<rparr> \<and>
   proofs_with_score
     (run [Request (PostProof (submission_a\<lparr>db_fault := Some 3\<rparr>))] seeded_db) 2048 = 1 \<and>
   \<not> counts_match (run [Request (PostProof (submission_a\<lparr>db_fault := Some 3\<rparr>))] seeded_db)"
  by code_simp

end
